theory Spec2Isabelle
  imports Main
begin

section \<open>The background worker of a node (felt/node/background\_worker.py)\<close>

text \<open>
  The module reads its configuration from a ledger once (lines 19 to 25 of the source) and
  then runs two nested endless loops (lines 27 to 38): the outer one opens a websocket, the
  inner one asks \<open>producer\<close> for a command, sends it and waits for one answer.
  Everything outside the module (the ledger client, the contract registry, the coordination
  server) is a parameter of the model: a value of type \<open>world\<close> fixes what every read,
  every connection attempt, every send and every receive answers.
\<close>

subsection \<open>Exceptions and values\<close>

text \<open>
  The exceptions a run can meet. \<open>ConnectionClosedOK\<close> (a clean close by the peer) and
  \<open>ConnectionClosedError\<close> are the two subclasses of \<open>websockets.ConnectionClosed\<close>;
  \<open>OSError\<close> and \<open>InvalidHandshake\<close> are what opening a connection raises;
  \<open>ProviderError\<close> stands for any failure of a request to the ledger endpoint.
\<close>

datatype exn =
    TypeError
  | KeyError string
  | ProviderError
  | OSError
  | InvalidHandshake
  | ConnectionClosedOK
  | ConnectionClosedError

text \<open>What the clause \<open>except websockets.ConnectionClosed\<close> matches.\<close>

fun isinstance_ConnectionClosed :: "exn \<Rightarrow> bool" where
  "isinstance_ConnectionClosed ConnectionClosedOK = True"
| "isinstance_ConnectionClosed ConnectionClosedError = True"
| "isinstance_ConnectionClosed _ = False"

text \<open>
  The values stored in the contract dictionaries: data loaded from the registry, and the
  contract object that \<open>w3.eth.contract\<close> returns.
\<close>

datatype pyval = Json string | Contract string string

type_synonym entry = "string \<rightharpoonup> pyval"

definition URL :: string where
  "URL = ''ws://localhost:8000/training/ws''"

definition ETH_NODE :: string where
  "ETH_NODE = ''http://127.0.0.1:8545''"

subsection \<open>What a run can be observed to do\<close>

datatype event =
    Print string "int option"
  | Sleep nat
  | Opened nat
  | ConnectFailed nat exn
  | Yielded string
  | Sent nat string
  | SendFailed nat string exn
  | Received nat string
  | RecvFailed nat exn
  | Closed nat

subsection \<open>The outside world\<close>

text \<open>
  The ledger: \<open>eth_chain_id l n\<close> is the answer to the \<open>n\<close>-th read of
  \<open>w3.eth.chain_id\<close> (the source reads it twice, lines 20 and 21);
  \<open>load_contracts\<close> is the registry of \<open>felt.node.utils.contracts\<close>, which is not part
  of the module; \<open>eth_contract\<close> is \<open>w3.eth.contract(address=..., abi=...)\<close>;
  \<open>activationFee_call\<close> is \<open>.functions.activationFee().call()\<close> on a contract object.
\<close>

record ledger =
  eth_chain_id :: "nat \<Rightarrow> exn + int"
  load_contracts :: "int \<Rightarrow> exn + (string \<times> entry) list"
  eth_contract :: "pyval \<Rightarrow> pyval \<Rightarrow> exn + pyval"
  activationFee_call :: "pyval \<Rightarrow> exn + int"

text \<open>
  The coordination server: \<open>accept sv n\<close> is \<open>None\<close> when the \<open>n\<close>-th call of
  \<open>websockets.connect(URL)\<close> yields a connection, and the exception otherwise;
  \<open>send_result sv n k\<close> and \<open>recv_result sv n k\<close> answer the \<open>k\<close>-th exchange on the
  connection opened by the \<open>n\<close>-th call.
\<close>

record server =
  accept :: "nat \<Rightarrow> exn option"
  send_result :: "nat \<Rightarrow> nat \<Rightarrow> exn option"
  recv_result :: "nat \<Rightarrow> nat \<Rightarrow> exn + string"

record world =
  w3 :: ledger
  coordinator :: server

subsection \<open>\<open>producer\<close> (lines 13 to 15)\<close>

text \<open>
  \<open>producer\<close> has one positional parameter, sleeps three seconds and returns \<open>"p"\<close>.
  \<open>call_producer\<close> is a Python call of it with the given argument list: binding fails
  with \<open>TypeError\<close> unless exactly one argument is passed.
\<close>

definition producer :: "'a \<Rightarrow> event list \<times> string" where
  "producer federated_contract = ([Sleep 3], ''p'')"

definition call_producer :: "'a list \<Rightarrow> exn + event list \<times> string" where
  "call_producer args = (case args of [a] \<Rightarrow> Inr (producer a) | _ \<Rightarrow> Inl TypeError)"

subsection \<open>Start-up (lines 19 to 25)\<close>

text \<open>
  The loop of lines 22 and 23: every entry of the dictionary gets the key \<open>"obj"\<close>, in the
  order of the dictionary; a missing key or a failing \<open>w3.eth.contract\<close> ends it.
\<close>

fun bind_contracts :: "ledger \<Rightarrow> (string \<times> entry) list \<Rightarrow> exn + (string \<times> entry) list" where
  "bind_contracts l [] = Inr []"
| "bind_contracts l ((k, c) # rest) =
     (case c ''address'' of
        None \<Rightarrow> Inl (KeyError ''address'')
      | Some a \<Rightarrow>
          (case c ''abi'' of
             None \<Rightarrow> Inl (KeyError ''abi'')
           | Some b \<Rightarrow>
               (case eth_contract l a b of
                  Inl e \<Rightarrow> Inl e
                | Inr obj \<Rightarrow>
                    (case bind_contracts l rest of
                       Inl e \<Rightarrow> Inl e
                     | Inr rest' \<Rightarrow> Inr ((k, c(''obj'' \<mapsto> obj)) # rest')))))"

text \<open>Line 25: the activation fee read through the bound \<open>ContractManager\<close>.\<close>

definition read_fee :: "ledger \<Rightarrow> (string \<times> entry) list \<Rightarrow> exn + int" where
  "read_fee l contracts =
     (case map_of contracts ''ContractManager'' of
        None \<Rightarrow> Inl (KeyError ''ContractManager'')
      | Some cm \<Rightarrow>
          (case cm ''obj'' of
             None \<Rightarrow> Inl (KeyError ''obj'')
           | Some obj \<Rightarrow> activationFee_call l obj))"

text \<open>
  Lines 19 to 25 as a whole: what has been printed, and either the exception that ended
  the start-up or the value of the variable \<open>contracts\<close>.
\<close>

definition startup :: "ledger \<Rightarrow> event list \<times> (exn + (string \<times> entry) list)" where
  "startup l =
     (case eth_chain_id l 0 of
        Inl e \<Rightarrow> ([], Inl e)
      | Inr cid \<Rightarrow>
          (let out = [Print ''Chain id'' (Some cid)] in
           case eth_chain_id l 1 of
             Inl e \<Rightarrow> (out, Inl e)
           | Inr cid' \<Rightarrow>
               (case load_contracts l cid' of
                  Inl e \<Rightarrow> (out, Inl e)
                | Inr loaded \<Rightarrow>
                    (case bind_contracts l loaded of
                       Inl e \<Rightarrow> (out, Inl e)
                     | Inr contracts \<Rightarrow>
                         (case read_fee l contracts of
                            Inl e \<Rightarrow> (out, Inl e)
                          | Inr fee \<Rightarrow> (out @ [Print ''Fee:'' (Some fee)], Inr contracts))))))"

subsection \<open>The ledger that a second start-up meets\<close>

text \<open>
  What the loop of lines 22 and 23 leaves in the dictionaries it was given, whether it ran
  to its end or was ended by an exception: every entry before the first failure carries
  its key \<open>"obj"\<close>, the others are untouched.
\<close>

fun bound_so_far :: "ledger \<Rightarrow> (string \<times> entry) list \<Rightarrow> (string \<times> entry) list" where
  "bound_so_far l [] = []"
| "bound_so_far l ((k, c) # rest) =
     (case c ''address'' of
        None \<Rightarrow> (k, c) # rest
      | Some a \<Rightarrow>
          (case c ''abi'' of
             None \<Rightarrow> (k, c) # rest
           | Some b \<Rightarrow>
               (case eth_contract l a b of
                  Inl e \<Rightarrow> (k, c) # rest
                | Inr obj \<Rightarrow> (k, c(''obj'' \<mapsto> obj)) # bound_so_far l rest)))"

text \<open>
  The registry after a start-up, when \<open>load_contracts\<close> hands out its own dictionaries
  and not copies of them: the dictionaries of the chain identifier read at line 21 are
  as line 23 left them.
\<close>

definition registry_after :: "ledger \<Rightarrow> int \<Rightarrow> exn + (string \<times> entry) list" where
  "registry_after l =
     (case eth_chain_id l 0 of
        Inl e \<Rightarrow> load_contracts l
      | Inr cid \<Rightarrow>
          (case eth_chain_id l 1 of
             Inl e \<Rightarrow> load_contracts l
           | Inr cid' \<Rightarrow>
               (case load_contracts l cid' of
                  Inl e \<Rightarrow> load_contracts l
                | Inr loaded \<Rightarrow> (load_contracts l)(cid' := Inr (bound_so_far l loaded)))))"

text \<open>
  The ledger as a second start-up meets it after a first one. The first start-up has used
  up \<open>k\<close> reads of the chain identifier (two by lines 20 and 21, more when the client
  reads it again inside a call), so the second one gets the answers from the \<open>k\<close>-th
  on. The contracts on the chain are only read. Whether \<open>load_contracts\<close> hands out the
  dictionaries that line 23 has written to, or fresh ones, is not decided by the module:
  \<open>shared\<close> says which.
\<close>

definition after_startup :: "bool \<Rightarrow> nat \<Rightarrow> ledger \<Rightarrow> ledger" where
  "after_startup shared k l =
     l\<lparr>eth_chain_id := (\<lambda>n. eth_chain_id l (k + n)),
       load_contracts := (if shared then registry_after l else load_contracts l)\<rparr>"

subsection \<open>The connection loop (lines 27 to 38)\<close>

text \<open>
  The control points of the loop, each with the local variables that are live there:
  \<open>AtConnect\<close> is line 28, before \<open>websockets.connect(URL)\<close>; \<open>AtProducer ws\<close> is line 31,
  inside the connection \<open>ws\<close>; \<open>AtSend ws cmd\<close> is line 33; \<open>AtRecv ws cmd\<close> is line 34;
  \<open>Raised e\<close> is the end of the coroutine, with \<open>e\<close> on its way to the caller.
\<close>

datatype pc =
    AtConnect
  | AtProducer nat
  | AtSend nat string
  | AtRecv nat string
  | Raised exn

text \<open>
  The state: the control point, the variables \<open>contracts\<close> and \<open>rec\<close>, the connections
  that are open, the number of calls of \<open>websockets.connect\<close> so far, the number of
  complete exchanges on the current connection, and what has been observed.
\<close>

record state =
  pc :: pc
  contracts :: "(string \<times> entry) list"
  rec :: "string option"
  live :: "nat list"
  attempts :: nat
  exchanges :: nat
  trace :: "event list"

text \<open>Leaving \<open>async with\<close>: the connection \<open>ws\<close> is closed.\<close>

definition aexit :: "nat \<Rightarrow> state \<Rightarrow> state" where
  "aexit ws s = s\<lparr>live := removeAll ws (live s), trace := trace s @ [Closed ws]\<rparr>"

text \<open>
  An exception raised inside the \<open>try\<close> of line 29: \<open>ConnectionClosed\<close> is caught, and
  \<open>continue\<close> leaves the \<open>async with\<close> for the next round of the outer loop; anything
  else leaves the \<open>async with\<close> and the coroutine.
\<close>

definition raise_in_try :: "nat \<Rightarrow> exn \<Rightarrow> state \<Rightarrow> state" where
  "raise_in_try ws e s =
     (if isinstance_ConnectionClosed e then (aexit ws s)\<lparr>pc := AtConnect\<rparr>
      else (aexit ws s)\<lparr>pc := Raised e\<rparr>)"

definition step :: "world \<Rightarrow> state \<Rightarrow> state" where
  "step w s =
     (case pc s of
        Raised e \<Rightarrow> s
      | AtConnect \<Rightarrow>
          (let n = attempts s in
           case accept (coordinator w) n of
             Some e \<Rightarrow>
               s\<lparr>pc := Raised e, attempts := Suc n, trace := trace s @ [ConnectFailed n e]\<rparr>
           | None \<Rightarrow>
               s\<lparr>pc := AtProducer n, live := live s @ [n], attempts := Suc n,
                 exchanges := 0, trace := trace s @ [Opened n]\<rparr>)
      | AtProducer ws \<Rightarrow>
          (case call_producer ([] :: pyval list) of
             Inl e \<Rightarrow> raise_in_try ws e s
           | Inr (slept, cmd) \<Rightarrow>
               s\<lparr>pc := AtSend ws cmd, trace := trace s @ slept @ [Yielded cmd]\<rparr>)
      | AtSend ws cmd \<Rightarrow>
          (case send_result (coordinator w) ws (exchanges s) of
             Some e \<Rightarrow> raise_in_try ws e (s\<lparr>trace := trace s @ [SendFailed ws cmd e]\<rparr>)
           | None \<Rightarrow> s\<lparr>pc := AtRecv ws cmd, trace := trace s @ [Sent ws cmd]\<rparr>)
      | AtRecv ws cmd \<Rightarrow>
          (case recv_result (coordinator w) ws (exchanges s) of
             Inl e \<Rightarrow> raise_in_try ws e (s\<lparr>trace := trace s @ [RecvFailed ws e]\<rparr>)
           | Inr r \<Rightarrow>
               s\<lparr>pc := AtProducer ws, rec := Some r, exchanges := Suc (exchanges s),
                 trace := trace s @ [Received ws r, Print ''Received'' None]\<rparr>))"

text \<open>The state after \<open>n\<close> steps.\<close>

primrec run :: "world \<Rightarrow> nat \<Rightarrow> state \<Rightarrow> state" where
  "run w 0 s = s"
| "run w (Suc n) s = run w n (step w s)"

text \<open>
  The loop run to its end: the observations and the exception that leaves it, or \<open>None\<close>
  when it runs for ever.
\<close>

partial_function (option) supervise :: "world \<Rightarrow> state \<Rightarrow> (event list \<times> exn) option" where
  "supervise w s =
     (case pc s of
        Raised e \<Rightarrow> Some (trace s, e)
      | _ \<Rightarrow> supervise w (step w s))"

text \<open>The state in which line 27 is reached.\<close>

definition enter_loop :: "event list \<Rightarrow> (string \<times> entry) list \<Rightarrow> state" where
  "enter_loop out cs =
     \<lparr>pc = AtConnect, contracts = cs, rec = None, live = [], attempts = 0, exchanges = 0,
      trace = out\<rparr>"

text \<open>
  \<open>task\<close> never returns a value: it either raises, or runs for ever. \<open>main\<close> is
  \<open>asyncio.run(task())\<close>, which hands the exception on.
\<close>

definition task :: "world \<Rightarrow> (event list \<times> exn) option" where
  "task w =
     (case startup (w3 w) of
        (out, Inl e) \<Rightarrow> Some (out, e)
      | (out, Inr cs) \<Rightarrow> supervise w (enter_loop out cs))"

definition main :: "world \<Rightarrow> (event list \<times> exn) option" where
  "main w = task w"

subsection \<open>Reading a trace\<close>

text \<open>The events of a call of \<open>websockets.connect\<close>.\<close>

fun connects :: "event \<Rightarrow> bool" where
  "connects (Opened n) = True"
| "connects (ConnectFailed n e) = True"
| "connects _ = False"

text \<open>The connections opened in a trace, in order.\<close>

fun opened :: "event list \<Rightarrow> nat list" where
  "opened [] = []"
| "opened (Opened n # tr) = n # opened tr"
| "opened (_ # tr) = opened tr"

text \<open>The commands that went out in a trace, each with its connection, in order.\<close>

fun sent :: "event list \<Rightarrow> (nat \<times> string) list" where
  "sent [] = []"
| "sent (Sent n c # tr) = (n, c) # sent tr"
| "sent (_ # tr) = sent tr"

text \<open>A trace with the content of every answer blanked.\<close>

fun blank :: "event \<Rightarrow> event" where
  "blank (Received n r) = Received n []"
| "blank ev = ev"

subsection \<open>Connections of a state\<close>

text \<open>
  Inside the \<open>async with\<close> exactly the connection bound to \<open>websocket\<close> is open, outside
  none is; no connection has been opened twice, and every connection that is open has
  been opened by an earlier call of \<open>websockets.connect\<close>.
\<close>

definition session_inv :: "state \<Rightarrow> bool" where
  "session_inv s =
     ((case pc s of
         AtConnect \<Rightarrow> live s = []
       | AtProducer ws \<Rightarrow> live s = [ws]
       | AtSend ws cmd \<Rightarrow> live s = [ws]
       | AtRecv ws cmd \<Rightarrow> live s = [ws]
       | Raised e \<Rightarrow> live s = [])
      \<and> distinct (opened (trace s))
      \<and> (\<forall>n \<in> set (opened (trace s)). n < attempts s)
      \<and> set (live s) \<subseteq> set (opened (trace s)))"

subsection \<open>Framing of the exchange, as the specification words it\<close>

text \<open>
  The specification asks that commands go out in the order the producer yields them, that
  every command sent is answered once before the next one goes out, and that no answer is
  attributed across connections. \<open>framing\<close> is the automaton that reads a trace and
  checks this: \<open>Idle\<close> with no connection, \<open>Ready ws\<close> with a connection and nothing
  pending, \<open>Holding ws c\<close> with a command yielded and not yet sent, \<open>Awaiting ws c\<close> with
  the command sent and its answer due. \<open>None\<close> is a violation.
\<close>

datatype framing = Idle | Ready nat | Holding nat string | Awaiting nat string

fun frame_step :: "framing \<Rightarrow> event \<Rightarrow> framing option" where
  "frame_step f (Opened n) = (case f of Idle \<Rightarrow> Some (Ready n) | _ \<Rightarrow> None)"
| "frame_step f (Yielded c) = (case f of Ready ws \<Rightarrow> Some (Holding ws c) | _ \<Rightarrow> None)"
| "frame_step f (Sent n c) =
     (case f of
        Holding ws c' \<Rightarrow> if n = ws \<and> c = c' then Some (Awaiting ws c) else None
      | _ \<Rightarrow> None)"
| "frame_step f (Received n r) =
     (case f of Awaiting ws c \<Rightarrow> if n = ws then Some (Ready ws) else None | _ \<Rightarrow> None)"
| "frame_step f (Closed n) =
     (case f of
        Idle \<Rightarrow> None
      | Ready ws \<Rightarrow> if n = ws then Some Idle else None
      | Holding ws c \<Rightarrow> if n = ws then Some Idle else None
      | Awaiting ws c \<Rightarrow> if n = ws then Some Idle else None)"
| "frame_step f _ = Some f"

fun framed :: "framing \<Rightarrow> event list \<Rightarrow> framing option" where
  "framed f [] = Some f"
| "framed f (ev # tr) = (case frame_step f ev of None \<Rightarrow> None | Some f' \<Rightarrow> framed f' tr)"

text \<open>Where the automaton stands at each control point of the loop.\<close>

fun framing_of :: "pc \<Rightarrow> framing" where
  "framing_of AtConnect = Idle"
| "framing_of (AtProducer ws) = Ready ws"
| "framing_of (AtSend ws cmd) = Holding ws cmd"
| "framing_of (AtRecv ws cmd) = Awaiting ws cmd"
| "framing_of (Raised e) = Idle"

subsection \<open>Servers that differ in the content of their answers only\<close>

definition same_but_payloads :: "server \<Rightarrow> server \<Rightarrow> bool" where
  "same_but_payloads a b =
     (accept a = accept b \<and> send_result a = send_result b \<and>
      (\<forall>n k. case recv_result a n k of
                Inl e \<Rightarrow> recv_result b n k = Inl e
              | Inr r \<Rightarrow> (case recv_result b n k of Inl e \<Rightarrow> False | Inr r' \<Rightarrow> True)))"

subsection \<open>Sample worlds and states\<close>

definition registry_entry :: entry where
  "registry_entry = [''address'' \<mapsto> Json ''0xC0'', ''abi'' \<mapsto> Json ''[]'']"

definition ledger_up :: ledger where
  "ledger_up =
     \<lparr>eth_chain_id = (\<lambda>n. Inr 1337),
      load_contracts = (\<lambda>cid. Inr [(''ContractManager'', registry_entry)]),
      eth_contract = (\<lambda>a b. case a of Json x \<Rightarrow> Inr (Contract x ''[]'') | _ \<Rightarrow> Inl TypeError),
      activationFee_call = (\<lambda>obj. Inr 100)\<rparr>"

definition ledger_down :: ledger where
  "ledger_down = ledger_up\<lparr>eth_chain_id := (\<lambda>n. Inl ProviderError)\<rparr>"

definition server_up :: server where
  "server_up =
     \<lparr>accept = (\<lambda>n. None), send_result = (\<lambda>n k. None), recv_result = (\<lambda>n k. Inr ''plan'')\<rparr>"

definition server_down :: server where
  "server_down = server_up\<lparr>accept := (\<lambda>n. Some OSError)\<rparr>"

text \<open>A server that answers the first command of a connection and then closes it.\<close>

definition server_closing :: server where
  "server_closing =
     server_up\<lparr>send_result := (\<lambda>n k. if k = 0 then None else Some ConnectionClosedOK)\<rparr>"


text \<open>The state of line 33 with the second command of the first connection in hand.\<close>

definition second_send :: state where
  "second_send =
     \<lparr>pc = AtSend 0 ''p'', contracts = [], rec = Some ''plan'', live = [0], attempts = 1,
      exchanges = 1,
      trace = [Opened 0, Sleep 3, Yielded ''p'', Sent 0 ''p'', Received 0 ''plan'',
               Print ''Received'' None, Sleep 3, Yielded ''p'']\<rparr>"

subsection \<open>States that differ in the content of the answers only\<close>

definition alike :: "state \<Rightarrow> state \<Rightarrow> bool" where
  "alike s t =
     (pc s = pc t \<and> contracts s = contracts t \<and> live s = live t \<and> attempts s = attempts t \<and>
      exchanges s = exchanges t \<and> map blank (trace s) = map blank (trace t))"

section \<open>Properties\<close>

subsection \<open>Running the loop\<close>

lemma step_Raised: "pc s = Raised e \<Longrightarrow> step w s = s"
  by (simp add: step_def)

lemma run_Raised: "pc s = Raised e \<Longrightarrow> run w n s = s"
  by (induction n) (simp_all add: step_Raised)

lemma supervise_Raised: "pc s = Raised e \<Longrightarrow> supervise w s = Some (trace s, e)"
  by (subst supervise.simps) simp

lemma supervise_step: "supervise w (step w s) = supervise w s"
proof (cases "pc s")
  case (Raised e) then show ?thesis by (simp add: step_Raised)
qed (subst (2) supervise.simps, simp)+

lemma supervise_run: "supervise w (run w n s) = supervise w s"
  by (induction n arbitrary: s) (simp_all add: supervise_step)

text \<open>A run that reaches the end of the coroutine after \<open>n\<close> steps is a finished loop.\<close>

lemma supervise_reaches:
  "pc (run w n s) = Raised e \<Longrightarrow> supervise w s = Some (trace (run w n s), e)"
  using supervise_run [of w n s] supervise_Raised [of "run w n s" e w] by simp

text \<open>Conversely, a finished loop has reached the end after some number of steps.\<close>

lemma supervise_SomeD:
  assumes "supervise w s = Some r"
  shows "\<exists>n. pc (run w n s) = Raised (snd r) \<and> trace (run w n s) = fst r"
proof (rule supervise.raw_induct
    [where P = "\<lambda>w s r. \<exists>n. pc (run w n s) = Raised (snd r) \<and> trace (run w n s) = fst r",
      OF _ assms], goal_cases)
  case (1 loop w s r)
  show ?case
  proof (cases "\<exists>e. pc s = Raised e")
    case True
    then obtain e where e: "pc s = Raised e" by blast
    with 1(2) have "r = (trace s, e)" by simp
    with e have "pc (run w 0 s) = Raised (snd r) \<and> trace (run w 0 s) = fst r" by simp
    then show ?thesis by blast
  next
    case False
    with 1(2) have "loop w (step w s) = Some r" by (simp split: pc.splits)
    from 1(1) [OF this] obtain n
      where "pc (run w n (step w s)) = Raised (snd r) \<and> trace (run w n (step w s)) = fst r"
      by blast
    then have "pc (run w (Suc n) s) = Raised (snd r) \<and> trace (run w (Suc n) s) = fst r"
      by simp
    then show ?thesis by blast
  qed
qed

text \<open>What a call of \<open>producer\<close> yields when it yields at all.\<close>

lemma call_producer_InrD:
  "call_producer args = Inr (slept, cmd) \<Longrightarrow> slept = [Sleep 3] \<and> cmd = ''p''"
  by (auto simp: call_producer_def producer_def split: list.splits)

subsection \<open>Whole runs of \<open>task\<close>\<close>

lemma startup_only_prints: "\<not> list_ex connects (fst (startup l))"
  by (simp add: startup_def Let_def split: sum.splits)

lemma task_startup_fails:
  "snd (startup (w3 w)) = Inl e \<Longrightarrow> task w = Some (fst (startup (w3 w)), e)"
  by (cases "startup (w3 w)") (simp add: task_def)

text \<open>With the ledger readable and the first connection accepted, line 31 ends the run.\<close>

lemma task_producer_raises:
  assumes "startup (w3 w) = (out, Inr cs)" and "accept (coordinator w) 0 = None"
  shows "task w = Some (out @ [Opened 0, Closed 0], TypeError)"
proof -
  let ?s = "enter_loop out cs"
  have one: "step w ?s = ?s\<lparr>pc := AtProducer 0, live := [0], attempts := Suc 0,
      exchanges := 0, trace := out @ [Opened 0]\<rparr>"
    using assms(2) by (simp add: step_def enter_loop_def)
  have two: "step w (step w ?s) = ?s\<lparr>pc := Raised TypeError, live := [], attempts := Suc 0,
      exchanges := 0, trace := out @ [Opened 0, Closed 0]\<rparr>"
    unfolding one
    by (simp add: step_def call_producer_def raise_in_try_def aexit_def enter_loop_def)
  have "pc (run w 2 ?s) = Raised TypeError"
    and "trace (run w 2 ?s) = out @ [Opened 0, Closed 0]"
    by (simp_all add: numeral_2_eq_2 two)
  with supervise_reaches [of w 2 ?s TypeError] show ?thesis
    using assms(1) by (simp add: task_def)
qed

lemma startup_ledger_up:
  "startup ledger_up =
     ([Print ''Chain id'' (Some 1337), Print ''Fee:'' (Some 100)],
      Inr [(''ContractManager'', registry_entry(''obj'' \<mapsto> Contract ''0xC0'' ''[]''))])"
  by (simp add: startup_def ledger_up_def registry_entry_def read_fee_def)

lemma startup_ledger_down: "startup ledger_down = ([], Inl ProviderError)"
  by (simp add: startup_def ledger_down_def)

subsection \<open>The producer\<close>

text \<open>
  C7: whatever contract handle \<open>producer\<close> is given, it waits the fixed interval of three
  seconds and then returns the same placeholder command \<open>"p"\<close>; the argument has no
  influence on the result.
\<close>

theorem producer_constant:
  "call_producer [c] = Inr ([Sleep 3], ''p'') \<and> producer c = ([Sleep 3], ''p'')
   \<and> producer c = producer c'"
  by (simp add: call_producer_def producer_def)

text \<open>
  C2: the claim is that the call of the producer made by the exchange loop returns a
  command and raises nothing. Line 31 calls \<open>producer()\<close> with no argument, while
  \<open>producer\<close> requires one: the call raises \<open>TypeError\<close>, which
  \<open>except websockets.ConnectionClosed\<close> does not catch, so the first round of the
  exchange loop ends \<open>main\<close>, even with a ledger that answers and a server that accepts.
\<close>

theorem producer_call_raises:
  "call_producer ([] :: pyval list) = Inl TypeError \<and>
   main \<lparr>w3 = ledger_up, coordinator = server_up\<rparr> =
     Some ([Print ''Chain id'' (Some 1337), Print ''Fee:'' (Some 100), Opened 0, Closed 0],
           TypeError)"
  using task_producer_raises [of "\<lparr>w3 = ledger_up, coordinator = server_up\<rparr>", OF _ _]
  by (simp add: main_def startup_ledger_up server_up_def call_producer_def)

subsection \<open>Start-up\<close>

text \<open>
  C6: when a read of the start-up fails, \<open>main\<close> ends with that exception (nothing is
  retried), and no call of \<open>websockets.connect\<close> has been made: the connection loop is
  never entered.
\<close>

theorem startup_failure_is_fatal:
  assumes "snd (startup (w3 w)) = Inl e"
  shows "main w = Some (fst (startup (w3 w)), e) \<and> \<not> list_ex connects (fst (startup (w3 w)))"
  using assms by (simp add: main_def task_startup_fails startup_only_prints)

theorem startup_failure_is_fatal_witness:
  "snd (startup (w3 \<lparr>w3 = ledger_down, coordinator = server_up\<rparr>)) = Inl ProviderError \<and>
   main \<lparr>w3 = ledger_down, coordinator = server_up\<rparr> = Some ([], ProviderError)"
  using startup_failure_is_fatal
    [of "\<lparr>w3 = ledger_down, coordinator = server_up\<rparr>" ProviderError]
  by (simp add: startup_ledger_down)

text \<open>Each read of the start-up is fatal when it fails.\<close>

lemma startup_chain_id_fails:
  "eth_chain_id l 0 = Inl e \<Longrightarrow> snd (startup l) = Inl e"
  "eth_chain_id l 0 = Inr c \<Longrightarrow> eth_chain_id l 1 = Inl e \<Longrightarrow> snd (startup l) = Inl e"
  by (simp_all add: startup_def)

lemma startup_registry_fails:
  "eth_chain_id l 0 = Inr c \<Longrightarrow> eth_chain_id l 1 = Inr c' \<Longrightarrow> load_contracts l c' = Inl e \<Longrightarrow>
   snd (startup l) = Inl e"
  by (simp add: startup_def)

lemma startup_binding_fails:
  "eth_chain_id l 0 = Inr c \<Longrightarrow> eth_chain_id l 1 = Inr c' \<Longrightarrow> load_contracts l c' = Inr cs \<Longrightarrow>
   bind_contracts l cs = Inl e \<Longrightarrow> snd (startup l) = Inl e"
  by (simp add: startup_def)

lemma startup_fee_fails:
  "eth_chain_id l 0 = Inr c \<Longrightarrow> eth_chain_id l 1 = Inr c' \<Longrightarrow> load_contracts l c' = Inr cs \<Longrightarrow>
   bind_contracts l cs = Inr cs' \<Longrightarrow> read_fee l cs' = Inl e \<Longrightarrow> snd (startup l) = Inl e"
  by (simp add: startup_def)

lemma bind_contracts_cong:
  "eth_contract l' = eth_contract l \<Longrightarrow> bind_contracts l' cs = bind_contracts l cs"
  by (induction l cs rule: bind_contracts.induct) (simp_all split: option.splits sum.splits)

lemma read_fee_cong:
  "activationFee_call l' = activationFee_call l \<Longrightarrow> read_fee l' cs = read_fee l cs"
  by (simp add: read_fee_def split: option.splits)

text \<open>Binding dictionaries that have been bound before gives what it gave before.\<close>

lemma bind_contracts_bound_so_far:
  "bind_contracts l (bound_so_far l cs) = bind_contracts l cs"
proof (induction l cs rule: bind_contracts.induct)
  case (1 l)
  show ?case by simp
next
  case (2 l k c rest)
  then show ?case
    by (simp split: option.splits sum.splits)
qed

lemma bind_contracts_again:
  "bind_contracts l cs = Inr cs' \<Longrightarrow> bind_contracts l cs' = Inr cs'"
proof (induction l cs arbitrary: cs' rule: bind_contracts.induct)
  case (1 l)
  then show ?case by simp
next
  case (2 l k c rest)
  then show ?case
    by (auto split: option.splits sum.splits)
qed

lemma registry_after_same:
  assumes "eth_chain_id l 0 = Inr cid" and "eth_chain_id l 1 = Inr cid"
  shows "registry_after l cid =
           (case load_contracts l cid of
              Inl e \<Rightarrow> Inl e
            | Inr loaded \<Rightarrow> Inr (bound_so_far l loaded))"
  using assms by (simp add: registry_after_def split: sum.splits)

text \<open>
  C9: the start-up is idempotent. Against a ledger whose state does not change (every read
  of the chain identifier has the same answer; registry, contracts and their constants
  are those of the first call), a second start-up, run on what the first one has left
  behind, prints the same and yields the same \<open>contracts\<close>. This holds however many
  reads of the chain identifier the first start-up has cost, and whether or not the
  registry hands out the very dictionaries that line 23 of the first start-up wrote to.
\<close>

theorem startup_idempotent:
  assumes "\<forall>n. eth_chain_id l n = eth_chain_id l 0"
  shows "startup (after_startup shared k l) = startup l"
proof (cases "eth_chain_id l 0")
  case (Inl e)
  with assms have "eth_chain_id l (k + 0) = Inl e" by metis
  with Inl show ?thesis by (simp add: startup_def after_startup_def)
next
  case (Inr cid)
  with assms have r0: "eth_chain_id l k = Inr cid" and r1: "eth_chain_id l (k + 1) = Inr cid"
    and l1: "eth_chain_id l 1 = Inr cid"
    by metis+
  let ?l' = "after_startup shared k l"
  have c0: "eth_chain_id ?l' 0 = Inr cid" and c1: "eth_chain_id ?l' 1 = Inr cid"
    using r0 r1 by (simp_all add: after_startup_def)
  have ec: "eth_contract ?l' = eth_contract l" and fc: "activationFee_call ?l' = activationFee_call l"
    by (simp_all add: after_startup_def)
  note bc = bind_contracts_cong [OF ec] and rf = read_fee_cong [OF fc]
  show ?thesis
  proof (cases "load_contracts l cid")
    case (Inl e)
    then have "load_contracts ?l' cid = Inl e"
      using registry_after_same [OF Inr l1] by (simp add: after_startup_def)
    with Inl Inr l1 c0 c1 show ?thesis by (simp add: startup_def)
  next
    case loaded: (Inr loaded)
    show ?thesis
    proof (cases shared)
      case True
      then have "load_contracts ?l' cid = Inr (bound_so_far l loaded)"
        using registry_after_same [OF Inr l1] loaded by (simp add: after_startup_def)
      with loaded Inr l1 c0 c1 show ?thesis
        by (simp add: startup_def Let_def bc rf bind_contracts_bound_so_far
            cong: sum.case_cong)
    next
      case False
      then have "load_contracts ?l' cid = Inr loaded"
        using loaded by (simp add: after_startup_def)
      with loaded Inr l1 c0 c1 show ?thesis
        by (simp add: startup_def Let_def bc rf cong: sum.case_cong)
    qed
  qed
qed

theorem startup_idempotent_witness:
  "(\<forall>n. eth_chain_id ledger_up n = eth_chain_id ledger_up 0) \<and>
   startup (after_startup True 3 ledger_up) =
     ([Print ''Chain id'' (Some 1337), Print ''Fee:'' (Some 100)],
      Inr [(''ContractManager'', registry_entry(''obj'' \<mapsto> Contract ''0xC0'' ''[]''))])"
  using startup_idempotent [of ledger_up True 3] startup_ledger_up
  by (simp add: ledger_up_def)

subsection \<open>The configuration is only read\<close>

lemma step_contracts: "contracts (step w s) = contracts s"
  by (simp add: step_def raise_in_try_def aexit_def Let_def
      split: pc.splits option.splits sum.splits prod.splits)

text \<open>
  C8: the configuration read at start-up is never changed afterwards: every step of the
  connection and exchange loop, and so every run of it, leaves \<open>contracts\<close> as it was
  (the ledger itself is a constant of the run).
\<close>

theorem contracts_never_mutated:
  "contracts (step w s) = contracts s \<and> contracts (run w n s) = contracts s"
proof
  show "contracts (step w s) = contracts s" by (rule step_contracts)
  show "contracts (run w n s) = contracts s"
    by (induction n arbitrary: s) (simp_all add: step_contracts)
qed

subsection \<open>One connection at a time\<close>

lemma opened_append: "opened (tr @ tr') = opened tr @ opened tr'"
  by (induction tr rule: opened.induct) simp_all

lemma session_inv_step: "session_inv s \<Longrightarrow> session_inv (step w s)"
  by (cases "pc s")
     (auto simp: session_inv_def step_def raise_in_try_def aexit_def Let_def opened_append
        dest!: call_producer_InrD
        split: option.splits sum.splits prod.splits)

lemma session_inv_run: "session_inv s \<Longrightarrow> session_inv (run w n s)"
  by (induction n arbitrary: s) (simp_all add: session_inv_step)

lemma session_inv_live: "session_inv s \<Longrightarrow> length (live s) \<le> 1"
  by (cases "pc s") (simp_all add: session_inv_def)

lemma session_inv_connect: "session_inv s \<Longrightarrow> pc s = AtConnect \<Longrightarrow> live s = []"
  by (simp add: session_inv_def)

lemma opened_startup: "opened (fst (startup l)) = []"
  by (simp add: startup_def Let_def split: sum.splits)

lemma session_inv_enter: "opened out = [] \<Longrightarrow> session_inv (enter_loop out cs)"
  by (simp add: session_inv_def enter_loop_def)

text \<open>
  C4: in every state the loop reaches at most one connection is open, no connection is
  opened twice, and \<open>websockets.connect\<close> is only called when no connection is open. The
  loop is entered in a state with this property, and every run from a state with this
  property keeps it.
\<close>

theorem at_most_one_session:
  "session_inv (enter_loop (fst (startup l)) cs) \<and>
   (session_inv s \<longrightarrow>
      session_inv (run w n s) \<and> length (live (run w n s)) \<le> 1 \<and>
      distinct (opened (trace (run w n s))) \<and>
      (pc (run w n s) = AtConnect \<longrightarrow> live (run w n s) = []))"
proof (intro conjI impI)
  show "session_inv (enter_loop (fst (startup l)) cs)"
    by (rule session_inv_enter) (rule opened_startup)
next
  assume "session_inv s"
  then have inv: "session_inv (run w n s)" by (rule session_inv_run)
  then show "session_inv (run w n s)" .
  from inv show "length (live (run w n s)) \<le> 1" by (rule session_inv_live)
  from inv show "distinct (opened (trace (run w n s)))" by (simp add: session_inv_def)
  assume "pc (run w n s) = AtConnect"
  with inv show "live (run w n s) = []" by (rule session_inv_connect)
qed

theorem at_most_one_session_witness:
  "session_inv second_send \<and>
   length (live (run \<lparr>w3 = ledger_up, coordinator = server_closing\<rparr> 2 second_send)) \<le> 1 \<and>
   distinct (opened (trace (run \<lparr>w3 = ledger_up, coordinator = server_closing\<rparr> 2 second_send)))"
  using at_most_one_session
    [of ledger_up "[]" second_send "\<lparr>w3 = ledger_up, coordinator = server_closing\<rparr>" 2]
  by (simp add: session_inv_def second_send_def)

subsection \<open>Framing of the exchange\<close>

lemma framed_append:
  "framed f (tr @ tr') = (case framed f tr of None \<Rightarrow> None | Some f' \<Rightarrow> framed f' tr')"
  by (induction tr arbitrary: f) (simp_all split: option.splits)

lemma framed_step:
  "framed f0 (trace s) = Some (framing_of (pc s)) \<Longrightarrow>
   framed f0 (trace (step w s)) = Some (framing_of (pc (step w s)))"
  by (cases "pc s")
     (auto simp: step_def raise_in_try_def aexit_def Let_def framed_append
        dest!: call_producer_InrD
        split: option.splits sum.splits prod.splits)

text \<open>
  C5: on every connection the commands go out in the order the producer yields them, every
  command sent is followed by exactly one answer before the next command goes out, and an
  answer belongs to the connection of its command. In terms of the trace: the automaton
  \<open>framed\<close> accepts the output of the start-up, and it accepts the trace of every run
  from a state whose trace it accepts, ending where the control point says.
\<close>

theorem exchange_framed:
  "framed Idle (fst (startup l)) = Some (framing_of (pc (enter_loop (fst (startup l)) cs))) \<and>
   (framed f0 (trace s) = Some (framing_of (pc s)) \<longrightarrow>
    framed f0 (trace (run w n s)) = Some (framing_of (pc (run w n s))))"
proof
  show "framed Idle (fst (startup l)) = Some (framing_of (pc (enter_loop (fst (startup l)) cs)))"
    by (simp add: startup_def enter_loop_def Let_def split: sum.splits)
  show "framed f0 (trace s) = Some (framing_of (pc s)) \<longrightarrow>
    framed f0 (trace (run w n s)) = Some (framing_of (pc (run w n s)))"
    by (induction n arbitrary: s) (simp_all add: framed_step)
qed

theorem exchange_framed_witness:
  "framed Idle (trace second_send) = Some (framing_of (pc second_send)) \<and>
   framed Idle (trace (run \<lparr>w3 = ledger_up, coordinator = server_up\<rparr> 2 second_send)) =
     Some (framing_of (pc (run \<lparr>w3 = ledger_up, coordinator = server_up\<rparr> 2 second_send)))"
  using exchange_framed
    [of ledger_up "[]" Idle second_send "\<lparr>w3 = ledger_up, coordinator = server_up\<rparr>" 2]
  by (simp add: second_send_def)

subsection \<open>Answers do not steer the node\<close>

lemma sent_append: "sent (tr @ tr') = sent tr @ sent tr'"
  by (induction tr rule: sent.induct) simp_all

lemma sent_blank: "sent (map blank tr) = sent tr"
  by (induction tr rule: sent.induct) simp_all

lemma alike_sent: "alike s t \<Longrightarrow> sent (trace s) = sent (trace t)"
  using sent_blank [of "trace s"] sent_blank [of "trace t"] by (simp add: alike_def)

lemma recv_alike:
  assumes "same_but_payloads a b"
  shows "(\<exists>e. recv_result a n k = Inl e \<and> recv_result b n k = Inl e) \<or>
         (\<exists>r r'. recv_result a n k = Inr r \<and> recv_result b n k = Inr r')"
proof -
  from assms have "case recv_result a n k of
                Inl e \<Rightarrow> recv_result b n k = Inl e
              | Inr r \<Rightarrow> (case recv_result b n k of Inl e \<Rightarrow> False | Inr r' \<Rightarrow> True)"
    by (simp add: same_but_payloads_def)
  then show ?thesis by (auto split: sum.splits)
qed

text \<open>One step of two runs keeps them alike: no branch of the loop looks at \<open>rec\<close>.\<close>

lemma alike_step:
  assumes sv: "same_but_payloads (coordinator w1) (coordinator w2)" and al: "alike s t"
  shows "alike (step w1 s) (step w2 t)"
proof -
  from al have eqs: "contracts t = contracts s" "live t = live s" "attempts t = attempts s"
    "exchanges t = exchanges s"
    and tr: "map blank (trace s) = map blank (trace t)"
    and pcs: "pc t = pc s"
    by (simp_all add: alike_def)
  from sv have acc: "accept (coordinator w2) = accept (coordinator w1)"
    and snd: "send_result (coordinator w2) = send_result (coordinator w1)"
    by (simp_all add: same_but_payloads_def)
  show ?thesis
  proof (cases "pc s")
    case AtConnect
    then show ?thesis
      by (simp add: alike_def step_def Let_def pcs eqs acc tr split: option.splits)
  next
    case (AtProducer ws)
    then show ?thesis
      by (simp add: alike_def step_def raise_in_try_def aexit_def pcs eqs tr
          split: sum.splits prod.splits)
  next
    case (AtSend ws cmd)
    then show ?thesis
      by (simp add: alike_def step_def raise_in_try_def aexit_def pcs eqs snd tr
          split: option.splits)
  next
    case (AtRecv ws cmd)
    from recv_alike [OF sv, of ws "exchanges s"] show ?thesis
    proof (elim disjE exE conjE)
      fix e assume "recv_result (coordinator w1) ws (exchanges s) = Inl e"
        "recv_result (coordinator w2) ws (exchanges s) = Inl e"
      with AtRecv show ?thesis
        by (simp add: alike_def step_def raise_in_try_def aexit_def pcs eqs tr)
    next
      fix r r' assume "recv_result (coordinator w1) ws (exchanges s) = Inr r"
        "recv_result (coordinator w2) ws (exchanges s) = Inr r'"
      with AtRecv show ?thesis
        by (simp add: alike_def step_def pcs eqs tr)
    qed
  next
    case (Raised e)
    with al show ?thesis by (simp add: step_def pcs)
  qed
qed

lemma alike_run:
  "same_but_payloads (coordinator w1) (coordinator w2) \<Longrightarrow> alike s t \<Longrightarrow>
   alike (run w1 n s) (run w2 n t)"
  by (induction n arbitrary: s t) (simp_all add: alike_step)

text \<open>
  C10: what the server answers has no influence on what the node sends. Two runs from the
  same state, against servers that accept, fail and close alike and differ only in the
  content of their answers, have sent the same commands on the same connections after any
  number of steps, and stand at the same control point.
\<close>

theorem answers_do_not_steer:
  assumes "same_but_payloads (coordinator w1) (coordinator w2)"
  shows "sent (trace (run w1 n s)) = sent (trace (run w2 n s)) \<and>
         pc (run w1 n s) = pc (run w2 n s)"
proof -
  have "alike s s" by (simp add: alike_def)
  with assms have "alike (run w1 n s) (run w2 n s)" by (rule alike_run)
  then show ?thesis using alike_sent [of "run w1 n s" "run w2 n s"] by (simp add: alike_def)
qed

theorem answers_do_not_steer_witness:
  "same_but_payloads server_up (server_up\<lparr>recv_result := (\<lambda>n k. Inr ''other'')\<rparr>) \<and>
   sent (trace (run \<lparr>w3 = ledger_up, coordinator = server_up\<rparr> 4 second_send)) =
   sent (trace (run \<lparr>w3 = ledger_up,
                     coordinator = server_up\<lparr>recv_result := (\<lambda>n k. Inr ''other'')\<rparr>\<rparr>
                  4 second_send))"
  using answers_do_not_steer [of "\<lparr>w3 = ledger_up, coordinator = server_up\<rparr>"
      "\<lparr>w3 = ledger_up, coordinator = server_up\<lparr>recv_result := (\<lambda>n k. Inr ''other'')\<rparr>\<rparr>"
      4 second_send]
  by (simp add: same_but_payloads_def server_up_def)

subsection \<open>A closed connection\<close>

text \<open>What the handler of line 37 does to the state.\<close>

lemma raise_in_try_closed:
  "isinstance_ConnectionClosed e \<Longrightarrow>
   raise_in_try ws e s =
     s\<lparr>pc := AtConnect, live := removeAll ws (live s), trace := trace s @ [Closed ws]\<rparr>"
  by (simp add: raise_in_try_def aexit_def)

lemma step_closed:
  assumes "isinstance_ConnectionClosed e"
    and "pc s = AtSend ws cmd \<and> send_result (coordinator w) ws (exchanges s) = Some e \<or>
         pc s = AtRecv ws cmd \<and> recv_result (coordinator w) ws (exchanges s) = Inl e"
  shows "\<exists>ev. step w s =
           s\<lparr>pc := AtConnect, live := removeAll ws (live s), trace := trace s @ [ev, Closed ws]\<rparr>
         \<and> (ev = SendFailed ws cmd e \<or> ev = RecvFailed ws e)"
  using assms by (auto simp: step_def raise_in_try_closed)

lemma step_connect:
  "pc s = AtConnect \<Longrightarrow>
   \<exists>ev. connects ev \<and> trace (step w s) = trace s @ [ev] \<and>
     attempts (step w s) = Suc (attempts s) \<and>
     (pc (step w s) = AtProducer (attempts s) \<or> (\<exists>x. pc (step w s) = Raised x))"
  by (simp add: step_def Let_def split: option.splits)

text \<open>
  The handler at work: when a send or a receive on an open connection raises
  \<open>ConnectionClosed\<close> (the clean close \<open>ConnectionClosedOK\<close> included), the
  connection is closed and control is back at line 28 with no command in hand; the next
  step calls \<open>websockets.connect\<close>, and the command is not sent again. What the loop
  does after that call is another matter: see below.
\<close>

lemma closed_goes_back_to_connect:
  assumes "isinstance_ConnectionClosed e"
    and "pc s = AtSend ws cmd \<and> send_result (coordinator w) ws (exchanges s) = Some e \<or>
         pc s = AtRecv ws cmd \<and> recv_result (coordinator w) ws (exchanges s) = Inl e"
  shows "pc (step w s) = AtConnect \<and>
         live (step w s) = removeAll ws (live s) \<and>
         (\<exists>ev. trace (step w s) = trace s @ [ev, Closed ws] \<and> sent [ev] = []) \<and>
         (\<exists>ev. connects ev \<and> trace (run w 2 s) = trace (step w s) @ [ev]) \<and>
         sent (trace (run w 2 s)) = sent (trace s) \<and>
         (pc (run w 2 s) = AtProducer (attempts s) \<or> (\<exists>x. pc (run w 2 s) = Raised x))"
proof -
  from step_closed [OF assms] obtain ev where
    st: "step w s =
           s\<lparr>pc := AtConnect, live := removeAll ws (live s), trace := trace s @ [ev, Closed ws]\<rparr>"
    and ev: "ev = SendFailed ws cmd e \<or> ev = RecvFailed ws e"
    by blast
  from ev have sev: "sent [ev] = []" by auto
  from st have pc1: "pc (step w s) = AtConnect" and at1: "attempts (step w s) = attempts s"
    and tr1: "trace (step w s) = trace s @ [ev, Closed ws]"
    and lv1: "live (step w s) = removeAll ws (live s)"
    by simp_all
  from step_connect [OF pc1, of w] obtain ev' where
    c: "connects ev'" and tr2: "trace (step w (step w s)) = trace (step w s) @ [ev']"
    and pc2: "pc (step w (step w s)) = AtProducer (attempts (step w s)) \<or>
              (\<exists>x. pc (step w (step w s)) = Raised x)"
    by blast
  have run2: "run w 2 s = step w (step w s)" by (simp add: numeral_2_eq_2)
  from c have "sent [ev'] = []" by (cases ev') simp_all
  with tr2 tr1 sev have "sent (trace (run w 2 s)) = sent (trace s)"
    using sent_append [of "trace s" "[ev, Closed ws]"]
      sent_append [of "trace s @ [ev, Closed ws]" "[ev']"]
    by (cases ev) (simp_all add: run2)
  with pc1 lv1 tr1 sev c tr2 pc2 at1 show ?thesis
    unfolding run2 by auto
qed

subsection \<open>Which exceptions reach the caller\<close>

text \<open>With the ledger readable and the first connection refused, line 28 ends the run.\<close>

lemma task_connect_refused:
  assumes "startup (w3 w) = (out, Inr cs)" and "accept (coordinator w) 0 = Some e"
  shows "task w = Some (out @ [ConnectFailed 0 e], e)"
proof -
  let ?s = "enter_loop out cs"
  have "step w ?s = ?s\<lparr>pc := Raised e, attempts := Suc 0, trace := out @ [ConnectFailed 0 e]\<rparr>"
    using assms(2) by (simp add: step_def enter_loop_def)
  then have "pc (run w 1 ?s) = Raised e" and "trace (run w 1 ?s) = out @ [ConnectFailed 0 e]"
    by simp_all
  with supervise_reaches [of w 1 ?s e] show ?thesis
    using assms(1) by (simp add: task_def)
qed

text \<open>
  C1: the claim is that every channel error, a failure to establish the connection
  included, is absorbed by going back to the disconnected state and connecting again, and
  never reaches the caller of \<open>main\<close>. The code misses this for the connection attempt
  itself: \<open>websockets.connect(URL)\<close> of line 28 is evaluated outside the \<open>try\<close> of
  line 29, although line 26 announces an infinite reconnect and lines 37 and 38 absorb a
  closed connection. Against a server that never accepts, \<open>main\<close> ends with the
  exception of the first attempt, and no second attempt is made.
\<close>

theorem connect_failure_propagates:
  "main \<lparr>w3 = ledger_up, coordinator = server_down\<rparr> =
     Some ([Print ''Chain id'' (Some 1337), Print ''Fee:'' (Some 100), ConnectFailed 0 OSError],
           OSError)"
  using task_connect_refused [of "\<lparr>w3 = ledger_up, coordinator = server_down\<rparr>", OF _ _]
  by (simp add: main_def startup_ledger_up server_down_def)

lemma step_raises:
  assumes "pc (step w s) = Raised e" and "\<forall>x. pc s \<noteq> Raised x"
  shows "(\<exists>k. trace (step w s) = trace s @ [ConnectFailed k e]) \<or>
         \<not> isinstance_ConnectionClosed e"
  using assms
  by (cases "pc s")
     (auto simp: step_def raise_in_try_def aexit_def Let_def
        split: option.splits sum.splits prod.splits if_splits)

lemma run_raises:
  "pc (run w n s) = Raised e \<Longrightarrow> \<forall>x. pc s \<noteq> Raised x \<Longrightarrow>
   (\<exists>k tr'. trace (run w n s) = tr' @ [ConnectFailed k e]) \<or> \<not> isinstance_ConnectionClosed e"
proof (induction n arbitrary: s)
  case 0
  then show ?case by simp
next
  case (Suc n)
  show ?case
  proof (cases "\<exists>x. pc (step w s) = Raised x")
    case True
    then obtain x where x: "pc (step w s) = Raised x" by blast
    then have stop: "run w n (step w s) = step w s" by (rule run_Raised)
    with Suc.prems(1) x have "x = e" by simp
    with x step_raises [of w s e] Suc.prems(2) stop show ?thesis by auto
  next
    case False
    with Suc.IH [of "step w s"] Suc.prems(1) show ?thesis by simp
  qed
qed

lemma supervise_raises:
  assumes "supervise w s = Some (tr, e)" and "\<forall>x. pc s \<noteq> Raised x"
  shows "(\<exists>k tr'. tr = tr' @ [ConnectFailed k e]) \<or> \<not> isinstance_ConnectionClosed e"
proof -
  from supervise_SomeD [OF assms(1)] obtain n
    where "pc (run w n s) = Raised e" and "trace (run w n s) = tr" by auto
  with run_raises [of w n s e] assms(2) show ?thesis by auto
qed

lemma task_raises:
  assumes "task w = Some (tr, e)"
  shows "snd (startup (w3 w)) = Inl e \<or> (\<exists>k tr'. tr = tr' @ [ConnectFailed k e]) \<or>
         \<not> isinstance_ConnectionClosed e"
proof (cases "startup (w3 w)")
  case (Pair out r)
  show ?thesis
  proof (cases r)
    case (Inl x)
    with Pair assms show ?thesis by (simp add: task_def)
  next
    case (Inr cs)
    with Pair assms have "supervise w (enter_loop out cs) = Some (tr, e)"
      by (simp add: task_def)
    from supervise_raises [OF this] show ?thesis by (simp add: enter_loop_def)
  qed
qed

text \<open>
  What lines 37 and 38 do achieve: a \<open>ConnectionClosed\<close> raised by a send or a receive
  is never what the loop ends with. Whenever the loop, or \<open>main\<close>, ends with an
  exception, that exception was raised by a read of the start-up, or by
  \<open>websockets.connect\<close> itself as the last thing that happened, or it is not a
  \<open>ConnectionClosed\<close>.
\<close>

lemma closed_never_reaches_caller:
  "(isinstance_ConnectionClosed x \<and>
    (pc s = AtSend ws cmd \<and> send_result (coordinator w) ws (exchanges s) = Some x \<or>
     pc s = AtRecv ws cmd \<and> recv_result (coordinator w) ws (exchanges s) = Inl x) \<longrightarrow>
      pc (run w 1 s) = AtConnect \<and> attempts (run w 2 s) = Suc (attempts s)) \<and>
   (supervise w s = Some (tr, e) \<and> (\<forall>y. pc s \<noteq> Raised y) \<longrightarrow>
      (\<exists>k tr'. tr = tr' @ [ConnectFailed k e]) \<or> \<not> isinstance_ConnectionClosed e) \<and>
   (main w = Some (tr2, e2) \<longrightarrow>
      snd (startup (w3 w)) = Inl e2 \<or> (\<exists>k tr'. tr2 = tr' @ [ConnectFailed k e2]) \<or>
      \<not> isinstance_ConnectionClosed e2)"
proof (intro conjI impI)
  assume a: "isinstance_ConnectionClosed x \<and>
    (pc s = AtSend ws cmd \<and> send_result (coordinator w) ws (exchanges s) = Some x \<or>
     pc s = AtRecv ws cmd \<and> recv_result (coordinator w) ws (exchanges s) = Inl x)"
  then obtain ev where
    st: "step w s =
           s\<lparr>pc := AtConnect, live := removeAll ws (live s), trace := trace s @ [ev, Closed ws]\<rparr>"
    using step_closed [of x s ws cmd w] by blast
  then have pc1: "pc (step w s) = AtConnect" and at1: "attempts (step w s) = attempts s"
    by simp_all
  from pc1 show "pc (run w 1 s) = AtConnect" by simp
  from step_connect [OF pc1, of w] at1 show "attempts (run w 2 s) = Suc (attempts s)"
    by (auto simp: numeral_2_eq_2)
next
  assume "supervise w s = Some (tr, e) \<and> (\<forall>y. pc s \<noteq> Raised y)"
  then show "(\<exists>k tr'. tr = tr' @ [ConnectFailed k e]) \<or> \<not> isinstance_ConnectionClosed e"
    using supervise_raises [of w s tr e] by blast
next
  assume "main w = Some (tr2, e2)"
  then show "snd (startup (w3 w)) = Inl e2 \<or> (\<exists>k tr'. tr2 = tr' @ [ConnectFailed k e2]) \<or>
      \<not> isinstance_ConnectionClosed e2"
    using task_raises [of w tr2 e2] by (simp add: main_def)
qed




end
